theory Spec2Isabelle
  imports Complex_Main "HOL-Library.Char_ord" "HOL-Library.List_Lexorder" "HOL-Library.Multiset"
begin

section \<open>Strings, numbers and paths\<close>

text \<open>
  Python strings are modelled as \<open>string\<close>; a character stands for the code point of the
  same number (U+0000 to U+00FF), so that comparing strings is comparing code points, as
  Python does. Python integers are \<open>int\<close>.
\<close>

text \<open>\<open>str.lower\<close> on one code point below 256: the ASCII capitals and the Latin-1
  capitals (U+00C0 to U+00DE without the multiplication sign U+00D7) move up by 32.\<close>

definition lower_char :: "char \<Rightarrow> char" where
  "lower_char c =
     (let n = (of_char c :: nat)
      in if (65 \<le> n \<and> n \<le> 90) \<or> (192 \<le> n \<and> n \<le> 222 \<and> n \<noteq> 215)
         then char_of (n + 32) else c)"

definition lower :: "string \<Rightarrow> string" where
  "lower s = map lower_char s"

text \<open>\<open>str(n)\<close> for an integer: decimal digits, a minus sign for negative numbers.\<close>

definition digit_char :: "nat \<Rightarrow> char" where
  "digit_char d = char_of (48 + d)"

fun str_nat :: "nat \<Rightarrow> string" where
  "str_nat n = (if n < 10 then [digit_char n] else str_nat (n div 10) @ [digit_char (n mod 10)])"

declare str_nat.simps [simp del]

definition str_int :: "int \<Rightarrow> string" where
  "str_int i = (if i < 0 then CHR ''-'' # str_nat (nat (- i)) else str_nat (nat i))"

text \<open>The format specification \<open>02d\<close>: at least two characters, padded with zeros after
  the sign. A negative number already has two characters.\<close>

definition fmt_02d :: "int \<Rightarrow> string" where
  "fmt_02d i = (if 0 \<le> i \<and> i < 10 then CHR ''0'' # str_int i else str_int i)"

text \<open>\<open>sep.join(xs)\<close>.\<close>

fun join :: "string \<Rightarrow> string list \<Rightarrow> string" where
  "join sep [] = []"
| "join sep [x] = x"
| "join sep (x # y # ys) = x @ sep @ join sep (y # ys)"

text \<open>\<open>s.split(sep)\<close> for a separator of one character.\<close>

fun split_on :: "char \<Rightarrow> string \<Rightarrow> string list" where
  "split_on c [] = [[]]"
| "split_on c (x # xs) =
     (if x = c then [] # split_on c xs
      else (case split_on c xs of [] \<Rightarrow> [[x]] | w # ws \<Rightarrow> (x # w) # ws))"

text \<open>
  A \<open>pathlib.Path\<close> (POSIX flavour) is the list of its parts, the root \<open>/\<close> being a part
  of its own, as in \<open>PurePath.parts\<close>. Paths are ordered as their part lists are, strings
  by code point, which is how \<open>sorted\<close> compares them.
\<close>

type_synonym path = "string list"

definition str_path :: "path \<Rightarrow> string" where
  "str_path p =
     (case p of
        [] \<Rightarrow> ''.''
      | r # rest \<Rightarrow> if r = ''/'' then ''/'' @ join ''/'' rest else join ''/'' p)"

text \<open>\<open>p / s\<close> for a string \<open>s\<close>: the segments of \<open>s\<close> are appended, empty and \<open>.\<close>
  segments dropped; an absolute \<open>s\<close> replaces \<open>p\<close>.\<close>

definition path_div :: "path \<Rightarrow> string \<Rightarrow> path" where
  "path_div p s =
     (let segs = filter (\<lambda>w. w \<noteq> [] \<and> w \<noteq> ''.'') (split_on CHR ''/'' s)
      in if take 1 s = ''/'' then ''/'' # segs else p @ segs)"

definition name :: "path \<Rightarrow> string" where
  "name p = (case p of [] \<Rightarrow> [] | [r] \<Rightarrow> (if r = ''/'' then [] else r) | _ \<Rightarrow> last p)"

text \<open>\<open>s.rfind(c)\<close>: the index of the last occurrence, or -1.\<close>

definition rfind :: "char \<Rightarrow> string \<Rightarrow> int" where
  "rfind c s =
     (if c \<in> set s then int (length s) - 1 - int (length (takeWhile (\<lambda>x. x \<noteq> c) (rev s)))
      else - 1)"

text \<open>\<open>Path.suffix\<close>: the name from its last dot on, unless that dot is the first or
  the last character of the name.\<close>

definition suffix :: "path \<Rightarrow> string" where
  "suffix p =
     (let nm = name p; i = rfind CHR ''.'' nm
      in if 0 < i \<and> i < int (length nm) - 1 then drop (nat i) nm else [])"

section \<open>Errors and the library\<close>

text \<open>
  The exceptions the program can end with: the \<open>ValueError\<close> that \<open>list_images\<close> raises,
  the \<open>ZeroDivisionError\<close> of a division by a zero column count, and an exception raised
  inside a library call that reads the input (listing the directory, opening and decoding
  an image), which carries the library's description. Writing to the output directory is
  taken to succeed.
\<close>

datatype error = ValueError string | ZeroDivisionError | LibraryError string

text \<open>
  The calls into \<open>pathlib\<close> and Pillow whose result depends on the file system or on pixel
  data are parameters of the model, over any type \<open>'img\<close> of image values:
  \<open>listdir\<close> gives the names of the entries of a directory, in the order the operating
  system lists them;
  \<open>Image_open\<close> opens and decodes; \<open>exif_transpose\<close> and \<open>convert\<close> return a new image;
  \<open>thumbnail\<close> gives the new content of the image it is called on; \<open>textlength\<close> is a
  float, taken as the rational it denotes.
\<close>

record 'img library =
  listdir :: "path \<Rightarrow> string + string list"
  Image_open :: "path \<Rightarrow> string + 'img"
  exif_transpose :: "'img \<Rightarrow> 'img"
  convert :: "string \<Rightarrow> 'img \<Rightarrow> 'img"
  thumbnail :: "'img \<Rightarrow> int \<times> int \<Rightarrow> 'img"
  img_width :: "'img \<Rightarrow> int"
  img_height :: "'img \<Rightarrow> int"
  textlength :: "string \<Rightarrow> rat"

section \<open>The data model\<close>

text \<open>
  Image objects live in a store, since \<open>thumbnail\<close> changes the object it is called on;
  \<open>_image\<close> holds the address of one. The assets themselves are values: no function of
  the program assigns to a field of an asset. An address that \<open>make_assets\<close> stores is
  in the store; a read at any other address is left unspecified, and the theorems about
  the functions that read ask for addresses in the store.
\<close>

record PhotoAsset =
  asset_id :: int
  role :: string
  path :: string
  width :: int
  height :: int
  asset_image :: nat

section \<open>Listing the input\<close>

text \<open>\<open>Path.iterdir\<close>: the path of every entry, the name appended to the directory.\<close>

definition iterdir :: "'img library \<Rightarrow> path \<Rightarrow> string + path list" where
  "iterdir lib p =
     (case listdir lib p of
        Inl e \<Rightarrow> Inl e
      | Inr names \<Rightarrow> Inr (map (\<lambda>n. p @ [n]) names))"

definition exts :: "string set" where
  "exts = {''.jpg'', ''.jpeg'', ''.png'', ''.webp'', ''.tif'', ''.tiff''}"

definition files :: "path list \<Rightarrow> path list" where
  "files ps = sort (filter (\<lambda>p. lower (suffix p) \<in> exts) ps)"

definition list_images :: "'img library \<Rightarrow> path \<Rightarrow> error + path list" where
  "list_images lib input_dir =
     (case iterdir lib input_dir of
        Inl e \<Rightarrow> Inl (LibraryError e)
      | Inr ps \<Rightarrow>
          if length (files ps) < 6
          then Inl (ValueError (''Need at least 6 images in '' @ str_path input_dir @
                 '', found '' @ str_int (int (length (files ps))) @ ''.''))
          else Inr (take 6 (files ps)))"

section \<open>Loading the images\<close>

text \<open>
  The state of a run: the store of image objects (an address is an index; a new object
  goes to the end) and what was done to the output, in order: a directory made, the
  contact sheet saved (its size, its background and the drawing operations on it, from
  which the file is rendered), an image saved, a text written.
\<close>

type_synonym colour = "int \<times> int \<times> int \<times> int"

datatype 'img draw_op =
    AlphaComposite 'img "int \<times> int"
  | Rectangle "int \<times> int \<times> rat \<times> int" colour
  | Text "int \<times> int" string colour

datatype 'img effect =
    MkDir path
  | SaveSheet path "int \<times> int" colour "'img draw_op list"
  | SaveImage path 'img
  | WriteText path string

record 'img state =
  heap :: "'img list"
  effects :: "'img effect list"

definition load_rgba_with_exif :: "'img library \<Rightarrow> path \<Rightarrow> error + 'img" where
  "load_rgba_with_exif lib p =
     (case Image_open lib p of
        Inl e \<Rightarrow> Inl (LibraryError e)
      | Inr img \<Rightarrow> Inr (convert lib ''RGBA'' (exif_transpose lib img)))"

text \<open>The loop of \<open>make_assets\<close> over \<open>enumerate(paths, start=1)\<close>; an exception of the
  loader ends it.\<close>

fun make_assets_loop ::
  "'img library \<Rightarrow> (nat \<times> path) list \<Rightarrow> PhotoAsset list \<Rightarrow> 'img state
     \<Rightarrow> error + PhotoAsset list \<times> 'img state" where
  "make_assets_loop lib [] assets s = Inr (assets, s)"
| "make_assets_loop lib ((i, p) # rest) assets s =
     (let r = (if i < 6 then ''element'' else ''background'')
      in case load_rgba_with_exif lib p of
           Inl e \<Rightarrow> Inl e
         | Inr img \<Rightarrow>
             make_assets_loop lib rest
               (assets @ [\<lparr>asset_id = int i, role = r, path = str_path p,
                           width = img_width lib img, height = img_height lib img,
                           asset_image = length (heap s)\<rparr>])
               (s\<lparr>heap := heap s @ [img]\<rparr>))"

definition make_assets ::
  "'img library \<Rightarrow> path list \<Rightarrow> 'img state \<Rightarrow> error + PhotoAsset list \<times> 'img state" where
  "make_assets lib paths s = make_assets_loop lib (enumerate 1 paths) [] s"

section \<open>The contact sheet\<close>

text \<open>One round of the loop of \<open>save_contact_sheet\<close>: the copy of the asset's image is a
  new object, \<open>thumbnail\<close> changes that object, and three drawing operations follow.\<close>

definition contact_step ::
  "'img library \<Rightarrow> int \<times> int \<Rightarrow> int \<Rightarrow> nat \<times> PhotoAsset
     \<Rightarrow> 'img list \<times> 'img draw_op list \<Rightarrow> 'img list \<times> 'img draw_op list" where
  "contact_step lib tile_size cols ia acc =
     (case (tile_size, ia, acc) of ((w, h), (idx, a), (hp, ops)) \<Rightarrow>
        let thumb = length hp;
            hp1 = hp @ [hp ! asset_image a];
            hp2 = hp1[thumb := thumbnail lib (hp1 ! thumb) tile_size];
            x = (int idx mod cols) * w + (w - img_width lib (hp2 ! thumb)) div 2;
            y = (int idx div cols) * h + (h - img_height lib (hp2 ! thumb)) div 2;
            label = str_int (asset_id a) @ '': '' @ role a;
            tw = textlength lib label;
            th = 12
        in (hp2, ops @ [AlphaComposite (hp2 ! thumb) (x, y),
                        Rectangle (x, y, of_int x + tw + 8, y + th + 6) (0, 0, 0, 120),
                        Text (x + 4, y + 2) label (255, 255, 255, 230)]))"

definition save_contact_sheet ::
  "'img library \<Rightarrow> PhotoAsset list \<Rightarrow> path \<Rightarrow> int \<times> int \<Rightarrow> int \<Rightarrow> 'img state
     \<Rightarrow> error + 'img state" where
  "save_contact_sheet lib assets out_path tile_size cols s =
     (case tile_size of (w, h) \<Rightarrow>
        if cols = 0 then Inl ZeroDivisionError
        else
          let rows = (int (length assets) + cols - 1) div cols;
              (hp, ops) = fold (contact_step lib tile_size cols) (enumerate 0 assets) (heap s, [])
          in Inr (s\<lparr>heap := hp,
                    effects := effects s @
                      [SaveSheet out_path (cols * w, rows * h) (245, 245, 245, 255) ops]\<rparr>))"

section \<open>The normalized copies\<close>

definition normalize_step ::
  "'img library \<Rightarrow> path \<Rightarrow> int \<Rightarrow> int \<Rightarrow> PhotoAsset \<Rightarrow> 'img state \<Rightarrow> 'img state" where
  "normalize_step lib out_dir max_side_element max_side_background a s =
     (let img = length (heap s);
          hp1 = heap s @ [heap s ! asset_image a];
          target = (if role a = ''background'' then max_side_background else max_side_element);
          hp2 = (if max (img_width lib (hp1 ! img)) (img_height lib (hp1 ! img)) > target
                 then hp1[img := thumbnail lib (hp1 ! img) (target, target)] else hp1)
      in s\<lparr>heap := hp2,
           effects := effects s @
             [SaveImage (path_div out_dir (fmt_02d (asset_id a) @ ''_'' @ role a @ ''.png''))
                (hp2 ! img)]\<rparr>)"

definition save_normalized_images ::
  "'img library \<Rightarrow> PhotoAsset list \<Rightarrow> path \<Rightarrow> int \<Rightarrow> int \<Rightarrow> 'img state \<Rightarrow> 'img state" where
  "save_normalized_images lib assets out_dir max_side_element max_side_background s =
     fold (normalize_step lib out_dir max_side_element max_side_background) assets
       (s\<lparr>effects := effects s @ [MkDir out_dir]\<rparr>)"

section \<open>The manifest\<close>

text \<open>The values \<open>json.dumps\<close> is given here: integers, strings, lists, and dictionaries
  with string keys in insertion order.\<close>

datatype json = JInt int | JStr string | JList "json list" | JDict "(string \<times> json) list"

definition hex_char :: "nat \<Rightarrow> char" where
  "hex_char d = (if d < 10 then char_of (48 + d) else char_of (87 + d))"

text \<open>\<open>encode_basestring_ascii\<close>: everything outside the range from the space to the tilde,
  the quotation mark and the backslash are escaped.\<close>

definition escape_char :: "char \<Rightarrow> string" where
  "escape_char c =
     (let n = (of_char c :: nat)
      in if n = 92 then [CHR 0x5C, CHR 0x5C]
         else if n = 34 then [CHR 0x5C, CHR 0x22]
         else if n = 8 then [CHR 0x5C, CHR ''b'']
         else if n = 12 then [CHR 0x5C, CHR ''f'']
         else if n = 10 then [CHR 0x5C, CHR ''n'']
         else if n = 13 then [CHR 0x5C, CHR ''r'']
         else if n = 9 then [CHR 0x5C, CHR ''t'']
         else if 32 \<le> n \<and> n \<le> 126 then [c]
         else [CHR 0x5C, CHR ''u'', CHR ''0'', CHR ''0'', hex_char (n div 16), hex_char (n mod 16)])"

definition encode_basestring_ascii :: "string \<Rightarrow> string" where
  "encode_basestring_ascii s = [CHR 0x22] @ concat (map escape_char s) @ [CHR 0x22]"

definition newline_indent :: "nat \<Rightarrow> nat \<Rightarrow> string" where
  "newline_indent ind level = CHR 0x0A # replicate (ind * level) CHR '' ''"

text \<open>\<open>json.dumps(o, indent=ind)\<close> at nesting level \<open>level\<close>, with the defaults for
  everything else: the item separator is a comma, the key separator a colon and a space,
  and strings are written in ASCII.\<close>

fun dumps :: "nat \<Rightarrow> nat \<Rightarrow> json \<Rightarrow> string" where
  "dumps ind level (JInt i) = str_int i"
| "dumps ind level (JStr s) = encode_basestring_ascii s"
| "dumps ind level (JList xs) =
     (if xs = [] then ''[]''
      else ''['' @ newline_indent ind (level + 1) @
           join ('','' @ newline_indent ind (level + 1)) (map (dumps ind (level + 1)) xs) @
           newline_indent ind level @ '']'')"
| "dumps ind level (JDict kvs) =
     (if kvs = [] then ''{}''
      else ''{'' @ newline_indent ind (level + 1) @
           join ('','' @ newline_indent ind (level + 1))
             (map (\<lambda>(k, v). encode_basestring_ascii k @ '': '' @ dumps ind (level + 1) v) kvs) @
           newline_indent ind level @ ''}'')"

definition summary :: "PhotoAsset list \<Rightarrow> json" where
  "summary assets =
     JList (map (\<lambda>a. JDict [(''id'', JInt (asset_id a)),
                             (''role'', JStr (role a)),
                             (''path'', JStr (path a)),
                             (''width'', JInt (width a)),
                             (''height'', JInt (height a))]) assets)"

definition write_summary :: "PhotoAsset list \<Rightarrow> path \<Rightarrow> 'img state \<Rightarrow> 'img state" where
  "write_summary assets out_path s =
     s\<lparr>effects := effects s @ [WriteText out_path (dumps 2 0 (summary assets))]\<rparr>"

section \<open>The pipeline\<close>

text \<open>\<open>main\<close> after the command line is parsed: \<open>input_dir\<close> and \<open>outdir\<close> are the two
  paths. An exception ends the run, and the run is then its exception. The messages
  printed at the end are left out.\<close>

definition main :: "'img library \<Rightarrow> path \<Rightarrow> path \<Rightarrow> 'img state \<Rightarrow> error + 'img state" where
  "main lib input_dir outdir s =
     (let s0 = s\<lparr>effects := effects s @ [MkDir outdir]\<rparr>
      in case list_images lib input_dir of
           Inl e \<Rightarrow> Inl e
         | Inr paths \<Rightarrow>
             (case make_assets lib paths s0 of
                Inl e \<Rightarrow> Inl e
              | Inr (assets, s1) \<Rightarrow>
                  (case save_contact_sheet lib assets (path_div outdir ''contact_sheet.png'')
                          (480, 320) 3 s1 of
                     Inl e \<Rightarrow> Inl e
                   | Inr s2 \<Rightarrow>
                       Inr (write_summary assets (path_div outdir ''summary.json'')
                              (save_normalized_images lib assets outdir 1600 2400 s2)))))"

section \<open>What is assumed of \<open>thumbnail\<close>, and the loops in closed form\<close>

text \<open>
  Pillow documents \<open>Image.thumbnail\<close> as making the image no larger than the given size
  while preserving its aspect. As a condition on the library: for an image of sides
  \<open>w\<close>, \<open>h\<close> and a size, all positive, the new sides \<open>w'\<close>, \<open>h'\<close> are positive, fit the
  size, and are in the proportion of the old ones up to rounding, that is,
  \<open>w' * h\<close> and \<open>h' * w\<close> differ by less than the longer of \<open>w\<close> and \<open>h\<close>.
\<close>

definition thumbnail_contract :: "'img library \<Rightarrow> bool" where
  "thumbnail_contract lib \<longleftrightarrow>
     (\<forall>img x y.
        0 < img_width lib img \<and> 0 < img_height lib img \<and> 0 < x \<and> 0 < y \<longrightarrow>
          0 < img_width lib (thumbnail lib img (x, y)) \<and>
          img_width lib (thumbnail lib img (x, y)) \<le> x \<and>
          0 < img_height lib (thumbnail lib img (x, y)) \<and>
          img_height lib (thumbnail lib img (x, y)) \<le> y \<and>
          \<bar>img_width lib (thumbnail lib img (x, y)) * img_height lib img
             - img_height lib (thumbnail lib img (x, y)) * img_width lib img\<bar>
            < max (img_width lib img) (img_height lib img))"

text \<open>The content of the copy that \<open>save_normalized_images\<close> saves of an image \<open>img\<close>
  for an asset of role \<open>r\<close>.\<close>

definition normalized :: "'img library \<Rightarrow> int \<Rightarrow> int \<Rightarrow> string \<Rightarrow> 'img \<Rightarrow> 'img" where
  "normalized lib max_side_element max_side_background r img =
     (let target = (if r = ''background'' then max_side_background else max_side_element)
      in if max (img_width lib img) (img_height lib img) > target
         then thumbnail lib img (target, target) else img)"

text \<open>The three drawing operations of \<open>save_contact_sheet\<close> for the asset at index
  \<open>idx\<close> whose thumbnail is \<open>t\<close>.\<close>

definition tile_ops ::
  "'img library \<Rightarrow> int \<times> int \<Rightarrow> int \<Rightarrow> nat \<Rightarrow> PhotoAsset \<Rightarrow> 'img \<Rightarrow> 'img draw_op list" where
  "tile_ops lib tile_size cols idx a t =
     (case tile_size of (w, h) \<Rightarrow>
        let x = (int idx mod cols) * w + (w - img_width lib t) div 2;
            y = (int idx div cols) * h + (h - img_height lib t) div 2;
            label = str_int (asset_id a) @ '': '' @ role a
        in [AlphaComposite t (x, y),
            Rectangle (x, y, of_int x + textlength lib label + 8, y + 12 + 6) (0, 0, 0, 120),
            Text (x + 4, y + 2) label (255, 255, 255, 230)])"

text \<open>The number a string of decimal digits stands for.\<close>

definition digits_value :: "string \<Rightarrow> nat" where
  "digits_value s = foldl (\<lambda>v c. 10 * v + (of_char c - 48)) 0 s"

section \<open>A library to run the model on\<close>

text \<open>
  An image value that keeps what the program can observe of a Pillow image: its size, its
  mode, the EXIF orientation tag and where it was read from.
\<close>

record pimg =
  pw :: int
  ph :: int
  pmode :: string
  porientation :: nat
  psource :: string

text \<open>The size \<open>Image.thumbnail\<close> resizes to, as Pillow computes it, with exact
  fractions in place of floats.\<close>

definition round_aspect :: "rat \<Rightarrow> (int \<Rightarrow> rat) \<Rightarrow> int" where
  "round_aspect number key =
     max (if key (floor number) \<le> key (ceiling number) then floor number else ceiling number) 1"

definition thumbnail_size :: "int \<times> int \<Rightarrow> int \<times> int \<Rightarrow> int \<times> int" where
  "thumbnail_size wh xy =
     (case (wh, xy) of ((w, h), (x, y)) \<Rightarrow>
        if x \<ge> w \<and> y \<ge> h then (w, h)
        else
          let aspect = (of_int w / of_int h :: rat)
          in if of_int x / of_int y \<ge> aspect
             then (round_aspect (of_int y * aspect) (\<lambda>n. \<bar>aspect - of_int n / of_int y\<bar>), y)
             else (x, round_aspect (of_int x / aspect)
                        (\<lambda>n. if n = 0 then 0 else \<bar>aspect - of_int x / of_int n\<bar>)))"

text \<open>The library over a directory table and a table of decodable files. An orientation
  tag from 5 to 8 is a rotation by a quarter turn, which swaps the sides.\<close>

definition pillow :: "(path \<times> string list) list \<Rightarrow> (path \<times> pimg) list \<Rightarrow> pimg library" where
  "pillow dirs imgs =
     \<lparr>listdir = (\<lambda>d. case map_of dirs d of None \<Rightarrow> Inl ''FileNotFoundError'' | Some ns \<Rightarrow> Inr ns),
      Image_open = (\<lambda>p. case map_of imgs p of None \<Rightarrow> Inl ''UnidentifiedImageError''
                                          | Some i \<Rightarrow> Inr i),
      exif_transpose = (\<lambda>i. if 5 \<le> porientation i \<and> porientation i \<le> 8
                             then i\<lparr>pw := ph i, ph := pw i, porientation := 1\<rparr>
                             else i\<lparr>porientation := 1\<rparr>),
      convert = (\<lambda>m i. i\<lparr>pmode := m\<rparr>),
      thumbnail = (\<lambda>i xy. case thumbnail_size (pw i, ph i) xy of (w, h) \<Rightarrow> i\<lparr>pw := w, ph := h\<rparr>),
      img_width = pw,
      img_height = ph,
      textlength = (\<lambda>s. of_nat (6 * length s))\<rparr>"

section \<open>A sample run\<close>

text \<open>A directory \<open>in\<close> of eight entries, seven of them images; the first was taken with the
  camera turned by a quarter.\<close>

definition sample_dir :: "string list" where
  "sample_dir =
     [''g.tiff'', ''b.png'', ''notes.txt'', ''a.JPG'', ''f.webp'', ''c.Png'', ''e.tif'', ''d.jpeg'']"

definition sample_img :: "string \<Rightarrow> int \<Rightarrow> int \<Rightarrow> nat \<Rightarrow> path \<times> pimg" where
  "sample_img n w h ori =
     ([''in'', n], \<lparr>pw = w, ph = h, pmode = ''RGB'', porientation = ori, psource = n\<rparr>)"

definition sample_imgs :: "(path \<times> pimg) list" where
  "sample_imgs =
     [sample_img ''a.JPG'' 4000 3000 6, sample_img ''b.png'' 800 600 1,
      sample_img ''c.Png'' 100 100 1, sample_img ''d.jpeg'' 1000 2000 1,
      sample_img ''e.tif'' 3000 1000 1, sample_img ''f.webp'' 5000 4999 1,
      sample_img ''g.tiff'' 10 10 1]"

definition sample_lib :: "pimg library" where
  "sample_lib = pillow [([''in''], sample_dir)] sample_imgs"

definition init_state :: "pimg state" where
  "init_state = \<lparr>heap = [], effects = []\<rparr>"

text \<open>The six paths \<open>list_images\<close> selects there.\<close>

definition sample_paths :: "path list" where
  "sample_paths =
     [[''in'', ''a.JPG''], [''in'', ''b.png''], [''in'', ''c.Png''],
      [''in'', ''d.jpeg''], [''in'', ''e.tif''], [''in'', ''f.webp'']]"

text \<open>The six assets made from them, and the state after they are made, when the run
  started from the empty state and wrote to \<open>out\<close>.\<close>

definition sample_asset :: "int \<Rightarrow> string \<Rightarrow> string \<Rightarrow> int \<Rightarrow> int \<Rightarrow> PhotoAsset" where
  "sample_asset i r n w h =
     \<lparr>asset_id = i, role = r, path = ''in/'' @ n, width = w, height = h,
      asset_image = nat (i - 1)\<rparr>"

definition sample_assets :: "PhotoAsset list" where
  "sample_assets =
     [sample_asset 1 ''element'' ''a.JPG'' 3000 4000,
      sample_asset 2 ''element'' ''b.png'' 800 600,
      sample_asset 3 ''element'' ''c.Png'' 100 100,
      sample_asset 4 ''element'' ''d.jpeg'' 1000 2000,
      sample_asset 5 ''element'' ''e.tif'' 3000 1000,
      sample_asset 6 ''background'' ''f.webp'' 5000 4999]"

definition sample_decoded :: "string \<Rightarrow> int \<Rightarrow> int \<Rightarrow> pimg" where
  "sample_decoded n w h = \<lparr>pw = w, ph = h, pmode = ''RGBA'', porientation = 1, psource = n\<rparr>"

definition sample_state :: "pimg state" where
  "sample_state =
     \<lparr>heap = [sample_decoded ''a.JPG'' 3000 4000, sample_decoded ''b.png'' 800 600,
              sample_decoded ''c.Png'' 100 100, sample_decoded ''d.jpeg'' 1000 2000,
              sample_decoded ''e.tif'' 3000 1000, sample_decoded ''f.webp'' 5000 4999],
      effects = [MkDir [''out'']]\<rparr>"

section \<open>Case folding and suffixes\<close>

lemma lower_char_eq_iff:
  assumes "of_char c < (65::nat)"
  shows "lower_char x = c \<longleftrightarrow> x = c"
proof -
  have inj: "\<And>a b :: char. (of_char a :: nat) = of_char b \<Longrightarrow> a = b" by simp
  have lt: "(of_char x :: nat) < 256" by simp
  show ?thesis
  proof (cases "(65 \<le> (of_char x :: nat) \<and> (of_char x :: nat) \<le> 90) \<or> (192 \<le> (of_char x :: nat) \<and> (of_char x :: nat) \<le> 222 \<and> (of_char x :: nat) \<noteq> 215)")
    case True
    then have l: "lower_char x = char_of ((of_char x :: nat) + 32)"
      by (simp add: lower_char_def Let_def)
    have "(of_char (lower_char x) :: nat) = of_char x + 32"
      using True by (auto simp add: l)
    then have "lower_char x \<noteq> c" using assms True by auto
    moreover have "x \<noteq> c" using assms True by auto
    ultimately show ?thesis by simp
  next
    case False
    then have "lower_char x = x" by (auto simp add: lower_char_def Let_def)
    then show ?thesis by simp
  qed
qed

lemma lower_char_idem: "lower_char (lower_char x) = lower_char x"
proof (cases "(65 \<le> (of_char x :: nat) \<and> (of_char x :: nat) \<le> 90) \<or> (192 \<le> (of_char x :: nat) \<and> (of_char x :: nat) \<le> 222 \<and> (of_char x :: nat) \<noteq> 215)")
  case True
  then have l: "lower_char x = char_of ((of_char x :: nat) + 32)"
    by (simp add: lower_char_def Let_def)
  have v: "(of_char (lower_char x) :: nat) = of_char x + 32"
    using True by (auto simp add: l)
  show ?thesis
    apply (subst (1) lower_char_def)
    using True by (auto simp add: Let_def v)
next
  case False
  then have "lower_char x = x" by (auto simp add: lower_char_def Let_def)
  then show ?thesis by simp
qed

lemma lower_idem: "lower (lower s) = lower s"
  by (simp add: lower_def lower_char_idem)

lemma lower_eq_slash: "lower n = ''/'' \<longleftrightarrow> n = ''/''"
proof -
  have "lower_char x = CHR ''/'' \<longleftrightarrow> x = CHR ''/''" for x
    by (rule lower_char_eq_iff) simp
  then show ?thesis by (cases n) (auto simp add: lower_def)
qed

lemma lower_char_dot: "lower_char x = CHR ''.'' \<longleftrightarrow> x = CHR ''.''"
  by (rule lower_char_eq_iff) simp

lemma dot_in_lower: "CHR ''.'' \<in> set (lower s) \<longleftrightarrow> CHR ''.'' \<in> set s"
proof (induction s)
  case Nil
  show ?case by (simp add: lower_def)
next
  case (Cons a s)
  have "lower (a # s) = lower_char a # lower s" by (simp add: lower_def)
  then show ?case using Cons lower_char_dot [of a] by (simp only: list.set insert_iff) metis
qed


lemma length_takeWhile_map:
  assumes "\<And>x. P (f x) = P x"
  shows "length (takeWhile P (map f xs)) = length (takeWhile P xs)"
proof (induction xs)
  case Nil
  show ?case by simp
next
  case (Cons a xs)
  then show ?case by (simp add: assms)
qed

lemma rfind_lower: "rfind CHR ''.'' (lower s) = rfind CHR ''.'' s"
proof -
  have r: "rev (lower s) = map lower_char (rev s)"
    unfolding lower_def by (rule rev_map)
  have t: "length (takeWhile (\<lambda>x. x \<noteq> CHR ''.'') (rev (lower s)))
           = length (takeWhile (\<lambda>x. x \<noteq> CHR ''.'') (rev s))"
    unfolding r by (rule length_takeWhile_map) (simp only: lower_char_dot)
  have l: "length (lower s) = length s" by (simp add: lower_def)
  show ?thesis
    unfolding rfind_def dot_in_lower t l ..
qed

lemma name_lower: "name (q @ [lower n]) = lower (name (q @ [n]))"
proof (cases q)
  case Nil
  show ?thesis
  proof (cases "n = ''/''")
    case True
    then have "lower n = ''/''" by (simp only: lower_eq_slash)
    then show ?thesis using True Nil by (simp add: name_def lower_def)
  next
    case False
    then have "lower n \<noteq> ''/''" using lower_eq_slash [of n] by blast
    then show ?thesis using False Nil by (simp add: name_def)
  qed
next
  case (Cons a as)
  then show ?thesis by (cases as) (simp_all add: name_def)
qed

lemma suffix_lower: "suffix (q @ [lower n]) = lower (suffix (q @ [n]))"
proof -
  have l: "length (lower s) = length s" for s by (simp add: lower_def)
  have d: "drop k (lower s) = lower (drop k s)" for k s by (simp add: lower_def drop_map)
  have e: "lower [] = []" by (simp add: lower_def)
  show ?thesis
    unfolding suffix_def Let_def name_lower rfind_lower l d
    by (simp only: e if_distrib [of lower] cong: if_cong)
qed

lemma lower_JPG: "lower ''.JPG'' = ''.jpg''"
  by code_simp

lemma lower_Png: "lower ''.Png'' = ''.png''"
  by code_simp

text \<open>
  Claim C8. The extension filter of \<open>list_images\<close> does not look at the case: a path is
  among the counted files exactly when it is listed and the lower-cased form of its suffix
  is one of the six extensions, a name and its lower-cased form are treated alike, and
  \<open>.JPG\<close> and \<open>.Png\<close> files are accepted.
\<close>

theorem files_case_insensitive:
  "(p \<in> set (files ps) \<longleftrightarrow>
      p \<in> set ps \<and>
      lower (suffix p) \<in> {''.jpg'', ''.jpeg'', ''.png'', ''.webp'', ''.tif'', ''.tiff''})
   \<and> (lower (suffix (q @ [n])) \<in> exts \<longleftrightarrow> suffix (q @ [lower n]) \<in> exts)
   \<and> [d, ''a.JPG''] \<in> set (files [[d, ''a.JPG'']])
   \<and> [d, ''c.Png''] \<in> set (files [[d, ''c.Png'']])"
proof -
  have a: "p \<in> set (files ps) \<longleftrightarrow>
      p \<in> set ps \<and>
      lower (suffix p) \<in> {''.jpg'', ''.jpeg'', ''.png'', ''.webp'', ''.tif'', ''.tiff''}"
    by (simp add: files_def exts_def)
  have b: "lower (suffix (q @ [n])) \<in> exts \<longleftrightarrow> suffix (q @ [lower n]) \<in> exts"
    by (simp only: suffix_lower)
  have s1: "suffix [d, ''a.JPG''] = ''.JPG''"
    by (simp add: suffix_def name_def rfind_def)
  have s2: "suffix [d, ''c.Png''] = ''.Png''"
    by (simp add: suffix_def name_def rfind_def)
  have c: "[d, ''a.JPG''] \<in> set (files [[d, ''a.JPG'']])"
    by (simp add: files_def exts_def s1 lower_JPG)
  have e: "[d, ''c.Png''] \<in> set (files [[d, ''c.Png'']])"
    by (simp add: files_def exts_def s2 lower_Png)
  from a b c e show ?thesis by blast
qed

section \<open>Which exceptions end a run\<close>











lemma sample_listdir: "listdir sample_lib [''in''] = Inr sample_dir"
  by (simp add: sample_lib_def pillow_def)


lemma sample_list_images: "list_images sample_lib [''in''] = Inr sample_paths"
  unfolding sample_paths_def by code_simp



section \<open>The order of the directory listing\<close>

lemma load_listdir_upd:
  "load_rgba_with_exif (lib\<lparr>listdir := f\<rparr>) p = load_rgba_with_exif lib p"
  by (simp add: load_rgba_with_exif_def split: sum.splits)

lemma make_assets_loop_listdir_upd:
  "make_assets_loop (lib\<lparr>listdir := f\<rparr>) ips assets s = make_assets_loop lib ips assets s"
proof (induction ips arbitrary: assets s)
  case Nil
  show ?case by simp
next
  case (Cons ip ips)
  obtain i p where ip: "ip = (i, p)" by (cases ip)
  show ?case unfolding ip
    by (simp add: load_listdir_upd Cons.IH Let_def split: sum.splits)
qed

lemma contact_step_listdir_upd:
  "contact_step (lib\<lparr>listdir := f\<rparr>) = contact_step lib"
  by (intro ext) (simp add: contact_step_def Let_def split: prod.splits)

lemma normalize_step_listdir_upd:
  "normalize_step (lib\<lparr>listdir := f\<rparr>) = normalize_step lib"
  by (intro ext) (simp add: normalize_step_def Let_def)

lemma main_listdir_upd:
  assumes "list_images (lib\<lparr>listdir := f\<rparr>) d = list_images lib d"
  shows "main (lib\<lparr>listdir := f\<rparr>) d out s = main lib d out s"
  unfolding main_def assms make_assets_def save_contact_sheet_def save_normalized_images_def
    make_assets_loop_listdir_upd contact_step_listdir_upd normalize_step_listdir_upd ..

lemma files_mset:
  assumes "mset ps' = mset ps"
  shows "files ps' = files ps"
proof -
  let ?P = "\<lambda>p. lower (suffix p) \<in> exts"
  have "mset (filter ?P ps') = mset (filter ?P ps)"
    using assms by (simp only: mset_filter)
  then have "mset (sort (filter ?P ps')) = mset (filter ?P ps)" by (simp only: mset_sort)
  then have "sort (filter ?P ps) = sort (filter ?P ps')"
    by (rule properties_for_sort) simp
  then show ?thesis by (simp only: files_def)
qed

text \<open>
  Claim C7. The pipeline is deterministic. The one thing a run does not fix is the order
  in which the operating system lists the directory: when the same entries are listed in
  another order, with the same file contents behind them, \<open>list_images\<close> selects the
  same six paths and the whole run of \<open>main\<close> is the same, roles and manifest text
  included.
\<close>

theorem pipeline_deterministic:
  assumes "listdir lib d = Inr names" and "mset names' = mset names"
  shows "list_images (lib\<lparr>listdir := (listdir lib)(d := Inr names')\<rparr>) d = list_images lib d
       \<and> main (lib\<lparr>listdir := (listdir lib)(d := Inr names')\<rparr>) d out s = main lib d out s"
proof -
  have "mset (map (\<lambda>n. d @ [n]) names') = mset (map (\<lambda>n. d @ [n]) names)"
    using assms(2) by simp
  then have "files (map (\<lambda>n. d @ [n]) names') = files (map (\<lambda>n. d @ [n]) names)"
    by (rule files_mset)
  then have l: "list_images (lib\<lparr>listdir := (listdir lib)(d := Inr names')\<rparr>) d
                = list_images lib d"
    using assms(1) by (simp add: list_images_def iterdir_def)
  show ?thesis using l main_listdir_upd [OF l] by simp
qed

theorem pipeline_deterministic_witness:
  "listdir sample_lib [''in''] = Inr sample_dir
   \<and> mset (rev sample_dir) = mset sample_dir
   \<and> list_images (sample_lib\<lparr>listdir := (listdir sample_lib)([''in''] := Inr (rev sample_dir))\<rparr>)
        [''in''] = list_images sample_lib [''in'']
   \<and> main (sample_lib\<lparr>listdir := (listdir sample_lib)([''in''] := Inr (rev sample_dir))\<rparr>)
        [''in''] [''out''] init_state = main sample_lib [''in''] [''out''] init_state
   \<and> list_images sample_lib [''in''] = Inr sample_paths"
proof -
  have m: "mset (rev sample_dir) = mset sample_dir" by simp
  show ?thesis
    using pipeline_deterministic [OF sample_listdir m, of "[''out'']" init_state] sample_listdir m
      sample_list_images
    by (simp only: simp_thms)
qed

section \<open>The assets\<close>

lemma make_assets_loop_spec:
  assumes "make_assets_loop lib (enumerate k paths) as s = Inr (as', s')"
  shows "length as' = length as + length paths
       \<and> take (length as) as' = as
       \<and> effects s' = effects s
       \<and> length (heap s') = length (heap s) + length paths
       \<and> take (length (heap s)) (heap s') = heap s
       \<and> (\<forall>j<length paths.
             asset_id (as' ! (length as + j)) = int (k + j)
           \<and> role (as' ! (length as + j)) = (if k + j < 6 then ''element'' else ''background'')
           \<and> path (as' ! (length as + j)) = str_path (paths ! j)
           \<and> asset_image (as' ! (length as + j)) = length (heap s) + j
           \<and> load_rgba_with_exif lib (paths ! j) = Inr (heap s' ! (length (heap s) + j))
           \<and> width (as' ! (length as + j)) = img_width lib (heap s' ! (length (heap s) + j))
           \<and> height (as' ! (length as + j)) = img_height lib (heap s' ! (length (heap s) + j)))"
  using assms
proof (induction paths arbitrary: k as s)
  case Nil
  then show ?case by simp
next
  case (Cons p paths)
  from Cons.prems obtain img where img: "load_rgba_with_exif lib p = Inr img"
    by (cases "load_rgba_with_exif lib p") (simp_all add: Let_def)
  define a0 where "a0 = \<lparr>asset_id = int k, role = (if k < 6 then ''element'' else ''background''),
       path = str_path p, width = img_width lib img, height = img_height lib img,
       asset_image = length (heap s)\<rparr>"
  define s1 where "s1 = s\<lparr>heap := heap s @ [img]\<rparr>"
  have rec: "make_assets_loop lib (enumerate (Suc k) paths) (as @ [a0]) s1 = Inr (as', s')"
    using Cons.prems img by (simp add: Let_def a0_def s1_def)
  note IH = Cons.IH [OF rec]
  have len: "length as' = length as + length (p # paths)" using IH by simp
  have hlen: "length (heap s') = length (heap s) + length (p # paths)"
    using IH by (simp add: s1_def)
  have tk1: "take (Suc (length as)) as' = as @ [a0]" using IH by simp
  have tk: "take (length as) as' = as"
  proof -
    have "take (length as) as' = take (length as) (take (Suc (length as)) as')" by simp
    then show ?thesis unfolding tk1 by simp
  qed
  have htk1: "take (Suc (length (heap s))) (heap s') = heap s @ [img]"
    using IH by (simp add: s1_def)
  have htk: "take (length (heap s)) (heap s') = heap s"
  proof -
    have "take (length (heap s)) (heap s')
          = take (length (heap s)) (take (Suc (length (heap s))) (heap s'))" by simp
    then show ?thesis unfolding htk1 by simp
  qed
  have a0_at: "as' ! length as = a0"
  proof -
    have "as' ! length as = take (Suc (length as)) as' ! length as" by simp
    then show ?thesis unfolding tk1 by simp
  qed
  have img_at: "heap s' ! length (heap s) = img"
  proof -
    have "heap s' ! length (heap s) = take (Suc (length (heap s))) (heap s') ! length (heap s)"
      by simp
    then show ?thesis unfolding htk1 by simp
  qed
  have eff: "effects s' = effects s" using IH by (simp add: s1_def)
  have elems: "asset_id (as' ! (length as + j)) = int (k + j)
           \<and> role (as' ! (length as + j)) = (if k + j < 6 then ''element'' else ''background'')
           \<and> path (as' ! (length as + j)) = str_path ((p # paths) ! j)
           \<and> asset_image (as' ! (length as + j)) = length (heap s) + j
           \<and> load_rgba_with_exif lib ((p # paths) ! j) = Inr (heap s' ! (length (heap s) + j))
           \<and> width (as' ! (length as + j)) = img_width lib (heap s' ! (length (heap s) + j))
           \<and> height (as' ! (length as + j)) = img_height lib (heap s' ! (length (heap s) + j))"
    if j: "j < length (p # paths)" for j
  proof (cases j)
    case 0
    then show ?thesis using a0_at img_at img by (simp add: a0_def)
  next
    case (Suc j')
    then have "j' < length paths" using j by simp
    then show ?thesis using IH Suc by (simp add: s1_def)
  qed
  show ?case using len tk eff hlen htk elems by blast
qed


lemma make_assets_loop_total:
  assumes "\<forall>p\<in>set paths. \<exists>raw. Image_open lib p = Inr raw"
  shows "\<exists>as' s'. make_assets_loop lib (enumerate k paths) as s = Inr (as', s')"
  using assms
proof (induction paths arbitrary: k as s)
  case Nil
  show ?case by simp
next
  case (Cons p paths)
  then obtain raw where "Image_open lib p = Inr raw" by auto
  then have "load_rgba_with_exif lib p = Inr (convert lib ''RGBA'' (exif_transpose lib raw))"
    by (simp add: load_rgba_with_exif_def)
  moreover have "\<forall>p\<in>set paths. \<exists>raw. Image_open lib p = Inr raw" using Cons.prems by simp
  ultimately show ?case using Cons.IH by (simp add: Let_def)
qed

lemma make_assets_spec:
  assumes "make_assets lib paths s = Inr (assets, s')"
  shows "length assets = length paths
       \<and> effects s' = effects s
       \<and> length (heap s') = length (heap s) + length paths
       \<and> take (length (heap s)) (heap s') = heap s
       \<and> (\<forall>j<length paths.
             asset_id (assets ! j) = int j + 1
           \<and> role (assets ! j) = (if j < 5 then ''element'' else ''background'')
           \<and> path (assets ! j) = str_path (paths ! j)
           \<and> asset_image (assets ! j) = length (heap s) + j
           \<and> load_rgba_with_exif lib (paths ! j) = Inr (heap s' ! asset_image (assets ! j))
           \<and> width (assets ! j) = img_width lib (heap s' ! asset_image (assets ! j))
           \<and> height (assets ! j) = img_height lib (heap s' ! asset_image (assets ! j)))"
proof -
  note L = make_assets_loop_spec [OF assms [unfolded make_assets_def]]
  have "1 + j < 6 \<longleftrightarrow> j < 5" for j :: nat by arith
  then show ?thesis using L by simp
qed


lemma sample_open_ok: "\<forall>p\<in>set sample_paths. \<exists>raw. Image_open sample_lib p = Inr raw"
  by (simp add: sample_paths_def sample_lib_def pillow_def sample_imgs_def sample_img_def)



text \<open>
  Claim C1. For a list of at least six paths whose images can be opened, \<open>make_assets\<close>
  returns one asset per path, in the order of the input: ids count from 1, each asset
  keeps the string of its path, the assets with ids 1 to 5 have the role \<open>element\<close> and
  the asset with id 6 has the role \<open>background\<close>.
\<close>

theorem make_assets_roles:
  assumes "6 \<le> length paths" and "\<forall>p\<in>set paths. \<exists>raw. Image_open lib p = Inr raw"
  shows "\<exists>assets s'. make_assets lib paths s = Inr (assets, s')
           \<and> length assets = length paths
           \<and> (\<forall>i<length paths. asset_id (assets ! i) = int i + 1
                                 \<and> path (assets ! i) = str_path (paths ! i))
           \<and> (\<forall>i<5. role (assets ! i) = ''element'')
           \<and> role (assets ! 5) = ''background''"
proof -
  obtain assets s' where m: "make_assets lib paths s = Inr (assets, s')"
    using make_assets_loop_total [OF assms(2)] unfolding make_assets_def by blast
  note S = make_assets_spec [OF m]
  have "\<forall>i<5. role (assets ! i) = ''element''" using S assms(1) by simp
  moreover have "role (assets ! 5) = ''background''" using S assms(1) by simp
  ultimately show ?thesis using m S by blast
qed


theorem make_assets_roles_witness:
  "6 \<le> length sample_paths
   \<and> list_all (\<lambda>p. \<exists>raw. Image_open sample_lib p = Inr raw) sample_paths
   \<and> (\<exists>assets s'. make_assets sample_lib sample_paths init_state = Inr (assets, s')
           \<and> length assets = length sample_paths
           \<and> (\<forall>i<length sample_paths. asset_id (assets ! i) = int i + 1
                                 \<and> path (assets ! i) = str_path (sample_paths ! i))
           \<and> (\<forall>i<5. role (assets ! i) = ''element'')
           \<and> role (assets ! 5) = ''background'')"
proof -
  have l: "6 \<le> length sample_paths" by (simp add: sample_paths_def)
  have a: "list_all (\<lambda>p. \<exists>raw. Image_open sample_lib p = Inr raw) sample_paths"
    using sample_open_ok by (simp only: list_all_iff)
  show ?thesis
    using make_assets_roles [OF l sample_open_ok, of init_state] l a by blast
qed



section \<open>The text of the manifest\<close>

lemma newline_indent_2:
  "newline_indent 2 0 = [CHR 0x0A]"
  "newline_indent 2 1 = CHR 0x0A # ''  ''"
  "newline_indent 2 2 = CHR 0x0A # ''    ''"
  by code_simp+

lemma encoded_keys:
  "encode_basestring_ascii ''id'' = CHR 0x22 # ''id'' @ [CHR 0x22]"
  "encode_basestring_ascii ''role'' = CHR 0x22 # ''role'' @ [CHR 0x22]"
  "encode_basestring_ascii ''path'' = CHR 0x22 # ''path'' @ [CHR 0x22]"
  "encode_basestring_ascii ''width'' = CHR 0x22 # ''width'' @ [CHR 0x22]"
  "encode_basestring_ascii ''height'' = CHR 0x22 # ''height'' @ [CHR 0x22]"
  by code_simp+

text \<open>
  Claim C4. \<open>write_summary\<close> writes one text file and nothing else: a JSON array with
  one record per asset, in the order of the list, each record on lines indented by two
  spaces per level, with exactly the keys \<open>id\<close>, \<open>role\<close>, \<open>path\<close>, \<open>width\<close>, \<open>height\<close> and
  the values of these fields. The image of an asset does not appear.
\<close>

theorem write_summary_text:
  "write_summary assets out_path s =
     s\<lparr>effects := effects s @
        [WriteText out_path
          (if assets = [] then ''[]''
           else ''['' @ CHR 0x0A # ''  '' @
                join ('','' @ CHR 0x0A # ''  '')
                  (map (\<lambda>a.
                     ''{'' @ CHR 0x0A # ''    '' @
                     CHR 0x22 # ''id'' @ [CHR 0x22] @ '': '' @ str_int (asset_id a) @
                     '','' @ CHR 0x0A # ''    '' @
                     CHR 0x22 # ''role'' @ [CHR 0x22] @ '': '' @ encode_basestring_ascii (role a) @
                     '','' @ CHR 0x0A # ''    '' @
                     CHR 0x22 # ''path'' @ [CHR 0x22] @ '': '' @ encode_basestring_ascii (path a) @
                     '','' @ CHR 0x0A # ''    '' @
                     CHR 0x22 # ''width'' @ [CHR 0x22] @ '': '' @ str_int (width a) @
                     '','' @ CHR 0x0A # ''    '' @
                     CHR 0x22 # ''height'' @ [CHR 0x22] @ '': '' @ str_int (height a) @
                     CHR 0x0A # ''  }'') assets) @
                CHR 0x0A # '']'')]\<rparr>"
  unfolding write_summary_def summary_def
  by (simp add: newline_indent_2 encoded_keys comp_def del: One_nat_def)

section \<open>The thumbnail size of the sample library\<close>

lemma round_aspect_bounds:
  assumes "0 < v"
  shows "1 \<le> round_aspect v key"
    and "\<bar>of_int (round_aspect v key) - v\<bar> < 1"
    and "v \<le> of_int b \<Longrightarrow> round_aspect v key \<le> b"
proof -
  have f1: "of_int (floor v) \<le> v" and f2: "v < of_int (floor v) + 1"
    and c1: "of_int (ceiling v) - 1 < v" and c2: "v \<le> of_int (ceiling v)"
    by linarith+
  have cpos: "1 \<le> ceiling v" using assms by linarith
  have fnn: "0 \<le> floor v" using assms by linarith
  have fc: "floor v \<le> ceiling v" by linarith
  show "1 \<le> round_aspect v key" by (simp add: round_aspect_def)
  show "\<bar>of_int (round_aspect v key) - v\<bar> < 1"
  proof (cases "key (floor v) \<le> key (ceiling v)")
    case True
    show ?thesis
    proof (cases "1 \<le> floor v")
      case True
      then have "round_aspect v key = floor v"
        using \<open>key (floor v) \<le> key (ceiling v)\<close> by (simp add: round_aspect_def)
      then show ?thesis using f1 f2 by simp
    next
      case False
      then have z: "floor v = 0" using fnn by linarith
      then have "round_aspect v key = 1"
        using \<open>key (floor v) \<le> key (ceiling v)\<close> by (simp add: round_aspect_def)
      then show ?thesis using f2 z assms by simp
    qed
  next
    case False
    then have "round_aspect v key = ceiling v" using cpos by (simp add: round_aspect_def)
    then show ?thesis using c1 c2 by simp
  qed
  show "round_aspect v key \<le> b" if "v \<le> of_int b"
  proof -
    have cb: "ceiling v \<le> b" using that by (simp add: ceiling_le)
    then have "floor v \<le> b" using fc by linarith
    moreover have "1 \<le> b" using cb cpos by linarith
    ultimately show ?thesis using cb by (simp add: round_aspect_def)
  qed
qed

lemma thumbnail_size_contract:
  assumes "0 < w" "0 < h" "0 < x" "0 < y" and "thumbnail_size (w, h) (x, y) = (w', h')"
  shows "0 < w' \<and> w' \<le> x \<and> 0 < h' \<and> h' \<le> y \<and> \<bar>w' * h - h' * w\<bar> < max w h"
proof (cases "x \<ge> w \<and> y \<ge> h")
  case True
  then have "w' = w" "h' = h" using assms(5) by (simp_all add: thumbnail_size_def)
  then show ?thesis using True assms by simp
next
  case False
  define aspect :: rat where "aspect = of_int w / of_int h"
  have apos: "0 < aspect" using assms by (simp add: aspect_def)
  show ?thesis
  proof (cases "of_int x / of_int y \<ge> aspect")
    case True
    define v where "v = of_int y * aspect"
    have vpos: "0 < v" using apos assms by (simp add: v_def)
    have vx: "v \<le> of_int x" using True assms by (simp add: v_def field_simps)
    have r: "w' = round_aspect v (\<lambda>n. \<bar>aspect - of_int n / of_int y\<bar>)" and "h' = y"
      using assms(5) False True
      by (auto simp add: thumbnail_size_def Let_def aspect_def v_def)
    have b1: "1 \<le> w'" and b2: "\<bar>of_int w' - v\<bar> < 1" and b3: "w' \<le> x"
      using round_aspect_bounds [OF vpos] vx unfolding r by blast+
    have "(of_int (w' * h - y * w) :: rat) = of_int h * (of_int w' - v)"
      using assms by (simp add: v_def aspect_def field_simps)
    then have "\<bar>of_int (w' * h - y * w) :: rat\<bar> = of_int h * \<bar>of_int w' - v\<bar>"
      using assms by (simp add: abs_mult)
    also have "\<dots> < of_int h * 1" using b2 assms by (intro mult_strict_left_mono) simp_all
    finally have "\<bar>of_int (w' * h - y * w) :: rat\<bar> < of_int h" by simp
    then have "\<bar>w' * h - y * w\<bar> < h" by (metis of_int_abs of_int_less_iff)
    then show ?thesis using b1 b3 \<open>h' = y\<close> assms by simp
  next
    case nle: False
    define v where "v = of_int x / aspect"
    have vpos: "0 < v" using apos assms by (simp add: v_def)
    have "of_int x / of_int y < aspect" using nle by simp
    then have vy: "v \<le> of_int y" using assms apos by (simp add: v_def field_simps)
    have r: "h' = round_aspect v (\<lambda>n. if n = 0 then 0 else \<bar>aspect - of_int x / of_int n\<bar>)"
      and "w' = x"
      using assms(5) False nle
      by (auto simp add: thumbnail_size_def Let_def aspect_def v_def cong: if_cong)
    have b1: "1 \<le> h'" and b2: "\<bar>of_int h' - v\<bar> < 1" and b3: "h' \<le> y"
      using round_aspect_bounds [OF vpos] vy unfolding r by blast+
    have "(of_int (x * h - h' * w) :: rat) = of_int w * (v - of_int h')"
      using assms by (simp add: v_def aspect_def field_simps)
    then have "\<bar>of_int (x * h - h' * w) :: rat\<bar> = of_int w * \<bar>of_int h' - v\<bar>"
      using assms by (simp add: abs_mult abs_minus_commute)
    also have "\<dots> < of_int w * 1" using b2 assms by (intro mult_strict_left_mono) simp_all
    finally have "\<bar>of_int (x * h - h' * w) :: rat\<bar> < of_int w" by simp
    then have "\<bar>x * h - h' * w\<bar> < w" by (metis of_int_abs of_int_less_iff)
    then show ?thesis using b1 b3 \<open>w' = x\<close> assms by simp
  qed
qed

lemma pillow_thumbnail_contract: "thumbnail_contract (pillow dirs imgs)"
  unfolding thumbnail_contract_def
proof (intro allI impI)
  fix img :: pimg and x y :: int
  let ?lib = "pillow dirs imgs"
  assume h: "0 < img_width ?lib img \<and> 0 < img_height ?lib img \<and> 0 < x \<and> 0 < y"
  obtain w' h' where t: "thumbnail_size (pw img, ph img) (x, y) = (w', h')"
    by (cases "thumbnail_size (pw img, ph img) (x, y)")
  have p: "0 < pw img" "0 < ph img" "0 < x" "0 < y" using h by (simp_all add: pillow_def)
  have th: "thumbnail ?lib img (x, y) = img\<lparr>pw := w', ph := h'\<rparr>"
    by (simp add: pillow_def t)
  have wd: "img_width ?lib = pw" and hd: "img_height ?lib = ph" by (simp_all add: pillow_def)
  show "0 < img_width ?lib (thumbnail ?lib img (x, y)) \<and>
          img_width ?lib (thumbnail ?lib img (x, y)) \<le> x \<and>
          0 < img_height ?lib (thumbnail ?lib img (x, y)) \<and>
          img_height ?lib (thumbnail ?lib img (x, y)) \<le> y \<and>
          \<bar>img_width ?lib (thumbnail ?lib img (x, y)) * img_height ?lib img
             - img_height ?lib (thumbnail ?lib img (x, y)) * img_width ?lib img\<bar>
            < max (img_width ?lib img) (img_height ?lib img)"
    unfolding th wd hd using thumbnail_size_contract [OF p t] by simp
qed

section \<open>The two loops over the store\<close>

lemma normalize_step_eq:
  assumes "asset_image a < length (heap s)"
  shows "normalize_step lib out me mb a s =
           s\<lparr>heap := heap s @ [normalized lib me mb (role a) (heap s ! asset_image a)],
             effects := effects s @
               [SaveImage (path_div out (fmt_02d (asset_id a) @ ''_'' @ role a @ ''.png''))
                  (normalized lib me mb (role a) (heap s ! asset_image a))]\<rparr>"
  using assms by (simp add: normalize_step_def normalized_def Let_def nth_append)

lemma fold_normalize_step:
  assumes "\<forall>a\<in>set assets. asset_image a < length (heap s)"
  shows "fold (normalize_step lib out me mb) assets s =
           s\<lparr>heap := heap s @
                 map (\<lambda>a. normalized lib me mb (role a) (heap s ! asset_image a)) assets,
             effects := effects s @
                 map (\<lambda>a. SaveImage (path_div out (fmt_02d (asset_id a) @ ''_'' @ role a @ ''.png''))
                            (normalized lib me mb (role a) (heap s ! asset_image a))) assets\<rparr>"
  using assms
proof (induction assets arbitrary: s)
  case Nil
  show ?case by simp
next
  case (Cons a assets)
  define v where "v = normalized lib me mb (role a) (heap s ! asset_image a)"
  define s1 where "s1 = s\<lparr>heap := heap s @ [v],
             effects := effects s @
               [SaveImage (path_div out (fmt_02d (asset_id a) @ ''_'' @ role a @ ''.png'')) v]\<rparr>"
  have a: "asset_image a < length (heap s)" using Cons.prems by simp
  have step: "normalize_step lib out me mb a s = s1"
    unfolding s1_def v_def by (rule normalize_step_eq [OF a])
  have rest: "\<forall>b\<in>set assets. asset_image b < length (heap s1)"
    using Cons.prems by (auto simp add: s1_def less_Suc_eq)
  have same: "heap s1 ! asset_image b = heap s ! asset_image b" if "b \<in> set assets" for b
    using that Cons.prems by (simp add: s1_def nth_append)
  have m1: "map (\<lambda>b. normalized lib me mb (role b) (heap s1 ! asset_image b)) assets
          = map (\<lambda>b. normalized lib me mb (role b) (heap s ! asset_image b)) assets"
    by (rule map_cong) (simp_all add: same)
  have m2: "map (\<lambda>b. SaveImage (path_div out (fmt_02d (asset_id b) @ ''_'' @ role b @ ''.png''))
                            (normalized lib me mb (role b) (heap s1 ! asset_image b))) assets
          = map (\<lambda>b. SaveImage (path_div out (fmt_02d (asset_id b) @ ''_'' @ role b @ ''.png''))
                            (normalized lib me mb (role b) (heap s ! asset_image b))) assets"
    by (rule map_cong) (simp_all add: same)
  have "fold (normalize_step lib out me mb) (a # assets) s
        = fold (normalize_step lib out me mb) assets s1"
    by (simp add: step)
  also note Cons.IH [OF rest]
  finally show ?case unfolding m1 m2 by (simp add: s1_def v_def)
qed

lemma save_normalized_images_eq:
  assumes "\<forall>a\<in>set assets. asset_image a < length (heap s)"
  shows "save_normalized_images lib assets out me mb s =
           s\<lparr>heap := heap s @
                 map (\<lambda>a. normalized lib me mb (role a) (heap s ! asset_image a)) assets,
             effects := effects s @ MkDir out #
                 map (\<lambda>a. SaveImage (path_div out (fmt_02d (asset_id a) @ ''_'' @ role a @ ''.png''))
                            (normalized lib me mb (role a) (heap s ! asset_image a))) assets\<rparr>"
proof -
  have "\<forall>a\<in>set assets. asset_image a < length (heap (s\<lparr>effects := effects s @ [MkDir out]\<rparr>))"
    using assms by simp
  from fold_normalize_step [OF this] show ?thesis
    by (simp add: save_normalized_images_def)
qed

lemma contact_step_eq:
  assumes "asset_image a < length hp"
  shows "contact_step lib tile cols (idx, a) (hp, ops) =
           (hp @ [thumbnail lib (hp ! asset_image a) tile],
            ops @ tile_ops lib tile cols idx a (thumbnail lib (hp ! asset_image a) tile))"
  using assms
  by (cases tile) (simp add: contact_step_def tile_ops_def Let_def nth_append)

lemma fold_contact_step:
  assumes "\<forall>a\<in>set assets. asset_image a < length hp"
  shows "fold (contact_step lib tile cols) (enumerate k assets) (hp, ops) =
           (hp @ map (\<lambda>a. thumbnail lib (hp ! asset_image a) tile) assets,
            ops @ concat (map (\<lambda>(idx, a). tile_ops lib tile cols idx a
                                 (thumbnail lib (hp ! asset_image a) tile))
                           (enumerate k assets)))"
  using assms
proof (induction assets arbitrary: k hp ops)
  case Nil
  show ?case by simp
next
  case (Cons a assets)
  define t where "t = thumbnail lib (hp ! asset_image a) tile"
  have a: "asset_image a < length hp" using Cons.prems by simp
  have rest: "\<forall>b\<in>set assets. asset_image b < length (hp @ [t])"
    using Cons.prems by (auto simp add: less_Suc_eq)
  have same: "(hp @ [t]) ! asset_image b = hp ! asset_image b" if "b \<in> set assets" for b
    using that Cons.prems by (simp add: nth_append)
  have m1: "map (\<lambda>b. thumbnail lib ((hp @ [t]) ! asset_image b) tile) assets
          = map (\<lambda>b. thumbnail lib (hp ! asset_image b) tile) assets"
    by (rule map_cong) (simp_all add: same)
  have m2: "map (\<lambda>(idx, b). tile_ops lib tile cols idx b
                                 (thumbnail lib ((hp @ [t]) ! asset_image b) tile))
              (enumerate (Suc k) assets)
          = map (\<lambda>(idx, b). tile_ops lib tile cols idx b (thumbnail lib (hp ! asset_image b) tile))
              (enumerate (Suc k) assets)"
  proof (rule map_cong)
    fix ib assume "ib \<in> set (enumerate (Suc k) assets)"
    then have "snd ib \<in> set (map snd (enumerate (Suc k) assets))" by (simp del: map_snd_enumerate)
    then have "snd ib \<in> set assets" by (simp only: map_snd_enumerate)
    then show "(case ib of (idx, b) \<Rightarrow> tile_ops lib tile cols idx b
                                 (thumbnail lib ((hp @ [t]) ! asset_image b) tile))
             = (case ib of (idx, b) \<Rightarrow> tile_ops lib tile cols idx b
                                 (thumbnail lib (hp ! asset_image b) tile))"
      by (cases ib) (simp add: same)
  qed simp
  have "fold (contact_step lib tile cols) (enumerate k (a # assets)) (hp, ops)
        = fold (contact_step lib tile cols) (enumerate (Suc k) assets)
            (hp @ [t], ops @ tile_ops lib tile cols k a t)"
    by (simp add: contact_step_eq [OF a] t_def)
  also note Cons.IH [OF rest]
  finally show ?case unfolding m1 m2 by (simp add: t_def)
qed

lemma save_contact_sheet_eq:
  assumes "\<forall>a\<in>set assets. asset_image a < length (heap s)" and "cols \<noteq> 0"
  shows "save_contact_sheet lib assets out_path (w, h) cols s =
           Inr (s\<lparr>heap := heap s @ map (\<lambda>a. thumbnail lib (heap s ! asset_image a) (w, h)) assets,
                  effects := effects s @
                    [SaveSheet out_path (cols * w, (int (length assets) + cols - 1) div cols * h)
                       (245, 245, 245, 255)
                       (concat (map (\<lambda>(idx, a). tile_ops lib (w, h) cols idx a
                                       (thumbnail lib (heap s ! asset_image a) (w, h)))
                                 (enumerate 0 assets)))]\<rparr>)"
  using assms(2) by (simp add: save_contact_sheet_def fold_contact_step [OF assms(1)] Let_def)

section \<open>The sample assets\<close>

lemma sample_make_assets:
  "make_assets sample_lib sample_paths (init_state\<lparr>effects := effects init_state @ [MkDir [''out'']]\<rparr>)
     = Inr (sample_assets, sample_state)"
  by (simp add: make_assets_def sample_paths_def sample_lib_def pillow_def sample_imgs_def
      sample_img_def load_rgba_with_exif_def init_state_def sample_assets_def sample_asset_def
      sample_state_def sample_decoded_def str_path_def Let_def)

lemma sample_assets_ok:
  "\<forall>a\<in>set sample_assets. asset_image a < length (heap sample_state)
       \<and> 0 < img_width sample_lib (heap sample_state ! asset_image a)
       \<and> 0 < img_height sample_lib (heap sample_state ! asset_image a)"
  by (simp add: sample_assets_def sample_asset_def sample_state_def sample_decoded_def
      sample_lib_def pillow_def)

section \<open>Bounds of the normalized copies\<close>

lemma map_zip_map:
  "map (\<lambda>(a, c). f a c) (zip xs (map g xs)) = map (\<lambda>a. f a (g a)) xs"
  by (induction xs) simp_all

lemma normalized_bounds:
  assumes "thumbnail_contract lib" and "0 < me" and "0 < mb"
      and "0 < img_width lib img" and "0 < img_height lib img"
  shows "max (img_width lib (normalized lib me mb r img)) (img_height lib (normalized lib me mb r img))
           \<le> (if r = ''background'' then mb else me)"
    and "max (img_width lib img) (img_height lib img) \<le> (if r = ''background'' then mb else me)
           \<Longrightarrow> normalized lib me mb r img = img"
    and "\<bar>img_width lib (normalized lib me mb r img) * img_height lib img
           - img_height lib (normalized lib me mb r img) * img_width lib img\<bar>
         < max (img_width lib img) (img_height lib img)"
proof -
  define target where "target = (if r = ''background'' then mb else me)"
  have tpos: "0 < target" using assms(2,3) by (simp add: target_def)
  note C = assms(1) [unfolded thumbnail_contract_def, rule_format, of img target target]
  have th: "0 < img_width lib (thumbnail lib img (target, target)) \<and>
          img_width lib (thumbnail lib img (target, target)) \<le> target \<and>
          0 < img_height lib (thumbnail lib img (target, target)) \<and>
          img_height lib (thumbnail lib img (target, target)) \<le> target \<and>
          \<bar>img_width lib (thumbnail lib img (target, target)) * img_height lib img
             - img_height lib (thumbnail lib img (target, target)) * img_width lib img\<bar>
            < max (img_width lib img) (img_height lib img)"
    using C assms(4,5) tpos by blast
  have n: "normalized lib me mb r img =
             (if max (img_width lib img) (img_height lib img) > target
              then thumbnail lib img (target, target) else img)"
    by (simp add: normalized_def target_def Let_def)
  show "max (img_width lib (normalized lib me mb r img)) (img_height lib (normalized lib me mb r img))
           \<le> (if r = ''background'' then mb else me)"
    unfolding target_def [symmetric] n using th by auto
  show "normalized lib me mb r img = img"
    if "max (img_width lib img) (img_height lib img) \<le> (if r = ''background'' then mb else me)"
    using that unfolding target_def [symmetric] n by auto
  show "\<bar>img_width lib (normalized lib me mb r img) * img_height lib img
           - img_height lib (normalized lib me mb r img) * img_width lib img\<bar>
         < max (img_width lib img) (img_height lib img)"
    unfolding n using th assms(4,5) by auto
qed

text \<open>
  Claim C3. Under the documented behaviour of \<open>thumbnail\<close>, and for assets whose images
  have positive sides, \<open>save_normalized_images\<close> saves one copy per asset, in order and
  under the asset's file name, such that the longer side of the copy is at most the
  threshold of the asset's role (\<open>max_side_background\<close> for \<open>background\<close>, else
  \<open>max_side_element\<close>; 2400 and 1600 by default), the copy is the image itself when the
  image's longer side is within the threshold, and the sides of the copy are proportional
  to those of the image up to rounding.
\<close>

theorem normalized_copies_bounded:
  assumes "thumbnail_contract lib"
      and "0 < max_side_element" and "0 < max_side_background"
      and "\<forall>a\<in>set assets. asset_image a < length (heap s)
             \<and> 0 < img_width lib (heap s ! asset_image a)
             \<and> 0 < img_height lib (heap s ! asset_image a)"
  shows "\<exists>copies. length copies = length assets
     \<and> effects (save_normalized_images lib assets out_dir max_side_element max_side_background s)
         = effects s @ MkDir out_dir #
             map (\<lambda>(a, c). SaveImage
                    (path_div out_dir (fmt_02d (asset_id a) @ ''_'' @ role a @ ''.png'')) c)
               (zip assets copies)
     \<and> (\<forall>k<length assets.
           max (img_width lib (copies ! k)) (img_height lib (copies ! k))
             \<le> (if role (assets ! k) = ''background'' then max_side_background
                 else max_side_element)
         \<and> (max (img_width lib (heap s ! asset_image (assets ! k)))
                 (img_height lib (heap s ! asset_image (assets ! k)))
               \<le> (if role (assets ! k) = ''background'' then max_side_background
                   else max_side_element)
             \<longrightarrow> copies ! k = heap s ! asset_image (assets ! k))
         \<and> \<bar>img_width lib (copies ! k) * img_height lib (heap s ! asset_image (assets ! k))
              - img_height lib (copies ! k) * img_width lib (heap s ! asset_image (assets ! k))\<bar>
             < max (img_width lib (heap s ! asset_image (assets ! k)))
                   (img_height lib (heap s ! asset_image (assets ! k))))"
proof -
  let ?N = "\<lambda>a. normalized lib max_side_element max_side_background (role a)
                  (heap s ! asset_image a)"
  have valid: "\<forall>a\<in>set assets. asset_image a < length (heap s)" using assms(4) by blast
  have e: "effects (save_normalized_images lib assets out_dir max_side_element max_side_background s)
         = effects s @ MkDir out_dir #
             map (\<lambda>(a, c). SaveImage
                    (path_div out_dir (fmt_02d (asset_id a) @ ''_'' @ role a @ ''.png'')) c)
               (zip assets (map ?N assets))"
    unfolding save_normalized_images_eq [OF valid] map_zip_map by simp
  have b: "max (img_width lib (map ?N assets ! k)) (img_height lib (map ?N assets ! k))
             \<le> (if role (assets ! k) = ''background'' then max_side_background
                 else max_side_element)
         \<and> (max (img_width lib (heap s ! asset_image (assets ! k)))
                 (img_height lib (heap s ! asset_image (assets ! k)))
               \<le> (if role (assets ! k) = ''background'' then max_side_background
                   else max_side_element)
             \<longrightarrow> map ?N assets ! k = heap s ! asset_image (assets ! k))
         \<and> \<bar>img_width lib (map ?N assets ! k) * img_height lib (heap s ! asset_image (assets ! k))
              - img_height lib (map ?N assets ! k) * img_width lib (heap s ! asset_image (assets ! k))\<bar>
             < max (img_width lib (heap s ! asset_image (assets ! k)))
                   (img_height lib (heap s ! asset_image (assets ! k)))"
    if k: "k < length assets" for k
  proof -
    have m: "assets ! k \<in> set assets" using k by simp
    have pw: "0 < img_width lib (heap s ! asset_image (assets ! k))"
      and ph: "0 < img_height lib (heap s ! asset_image (assets ! k))"
      using assms(4) m by blast+
    have nk: "map ?N assets ! k = ?N (assets ! k)" using k by simp
    show ?thesis
      unfolding nk
      using normalized_bounds [OF assms(1,2,3) pw ph, of "role (assets ! k)"] by blast
  qed
  show ?thesis
    by (rule exI [of _ "map ?N assets"]) (use e b in simp)
qed

theorem normalized_copies_bounded_witness:
  "thumbnail_contract sample_lib \<and> (0 :: int) < 1600 \<and> (0 :: int) < 2400
   \<and> list_all (\<lambda>a. asset_image a < length (heap sample_state)
             \<and> 0 < img_width sample_lib (heap sample_state ! asset_image a)
             \<and> 0 < img_height sample_lib (heap sample_state ! asset_image a)) sample_assets
   \<and> (\<exists>copies. length copies = length sample_assets
     \<and> effects (save_normalized_images sample_lib sample_assets [''out''] 1600 2400 sample_state)
         = effects sample_state @ MkDir [''out''] #
             map (\<lambda>(a, c). SaveImage
                    (path_div [''out''] (fmt_02d (asset_id a) @ ''_'' @ role a @ ''.png'')) c)
               (zip sample_assets copies)
     \<and> (\<forall>k<length sample_assets.
           max (img_width sample_lib (copies ! k)) (img_height sample_lib (copies ! k))
             \<le> (if role (sample_assets ! k) = ''background'' then 2400 else 1600)
         \<and> (max (img_width sample_lib (heap sample_state ! asset_image (sample_assets ! k)))
                 (img_height sample_lib (heap sample_state ! asset_image (sample_assets ! k)))
               \<le> (if role (sample_assets ! k) = ''background'' then 2400 else 1600)
             \<longrightarrow> copies ! k = heap sample_state ! asset_image (sample_assets ! k))
         \<and> \<bar>img_width sample_lib (copies ! k)
                * img_height sample_lib (heap sample_state ! asset_image (sample_assets ! k))
              - img_height sample_lib (copies ! k)
                * img_width sample_lib (heap sample_state ! asset_image (sample_assets ! k))\<bar>
             < max (img_width sample_lib (heap sample_state ! asset_image (sample_assets ! k)))
                   (img_height sample_lib (heap sample_state ! asset_image (sample_assets ! k)))))"
proof -
  have c: "thumbnail_contract sample_lib"
    unfolding sample_lib_def by (rule pillow_thumbnail_contract)
  have p1: "(0 :: int) < 1600" and p2: "(0 :: int) < 2400" by simp_all
  have a: "list_all (\<lambda>a. asset_image a < length (heap sample_state)
             \<and> 0 < img_width sample_lib (heap sample_state ! asset_image a)
             \<and> 0 < img_height sample_lib (heap sample_state ! asset_image a)) sample_assets"
    using sample_assets_ok by (simp only: list_all_iff)
  show ?thesis
    using normalized_copies_bounded [OF c p1 p2 sample_assets_ok, of "[''out'']"] c a
    by (simp only: p1 p2 simp_thms)
qed

section \<open>The layout of the contact sheet\<close>




section \<open>What the two save functions leave alone\<close>

lemma make_assets_valid:
  assumes "make_assets lib paths s0 = Inr (assets, s)"
  shows "\<forall>a\<in>set assets. asset_image a < length (heap s)
           \<and> width a = img_width lib (heap s ! asset_image a)
           \<and> height a = img_height lib (heap s ! asset_image a)"
proof
  fix a assume "a \<in> set assets"
  then obtain j where j: "j < length assets" and a: "a = assets ! j"
    by (auto simp add: in_set_conv_nth)
  note S = make_assets_spec [OF assms]
  have jp: "j < length paths" using S j by simp
  have "asset_image (assets ! j) = length (heap s0) + j" using S jp by blast
  moreover have "length (heap s) = length (heap s0) + length paths" using S by blast
  ultimately have v: "asset_image (assets ! j) < length (heap s)" using jp by simp
  have "width (assets ! j) = img_width lib (heap s ! asset_image (assets ! j))"
       "height (assets ! j) = img_height lib (heap s ! asset_image (assets ! j))"
    using S jp by blast+
  then show "asset_image a < length (heap s)
           \<and> width a = img_width lib (heap s ! asset_image a)
           \<and> height a = img_height lib (heap s ! asset_image a)"
    using v a by simp
qed

lemma sample_copy_smaller:
  "img_width sample_lib (normalized sample_lib 1600 2400 ''element'' (sample_decoded ''a.JPG'' 3000 4000))
     = 1200"
  by code_simp

text \<open>
  Claim C9. The assets are values that \<open>save_contact_sheet\<close> and
  \<open>save_normalized_images\<close> only read; the one thing they change in place is an image,
  through \<open>thumbnail\<close>, and they call it on a copy. So after both, over the assets that
  \<open>make_assets\<close> returned: each function has added one new image object per asset, every
  object that was in the store before is unchanged, the image of each asset is still the
  decoded one, and the width and height that the manifest records are those of that
  decoded image.
\<close>

theorem saves_work_on_copies:
  assumes "make_assets lib paths s0 = Inr (assets, s)" and "cols \<noteq> 0"
  shows "\<exists>s1. save_contact_sheet lib assets sheet_path tile_size cols s = Inr s1
     \<and> length (heap s1) = length (heap s) + length assets
     \<and> length (heap (save_normalized_images lib assets out_dir me mb s1))
         = length (heap s1) + length assets
     \<and> take (length (heap s)) (heap (save_normalized_images lib assets out_dir me mb s1)) = heap s
     \<and> (\<forall>i<length assets.
           heap (save_normalized_images lib assets out_dir me mb s1) ! asset_image (assets ! i)
             = heap s ! asset_image (assets ! i)
         \<and> load_rgba_with_exif lib (paths ! i)
             = Inr (heap (save_normalized_images lib assets out_dir me mb s1)
                      ! asset_image (assets ! i)))
     \<and> summary assets =
         JList (map (\<lambda>a. JDict
           [(''id'', JInt (asset_id a)), (''role'', JStr (role a)), (''path'', JStr (path a)),
            (''width'', JInt (img_width lib
               (heap (save_normalized_images lib assets out_dir me mb s1) ! asset_image a))),
            (''height'', JInt (img_height lib
               (heap (save_normalized_images lib assets out_dir me mb s1) ! asset_image a)))])
           assets)"
proof -
  obtain w h where tile: "tile_size = (w, h)" by (cases tile_size)
  note V = make_assets_valid [OF assms(1)]
  have valid: "\<forall>a\<in>set assets. asset_image a < length (heap s)" using V by blast
  define s1 where "s1 = s\<lparr>heap := heap s @ map (\<lambda>a. thumbnail lib (heap s ! asset_image a) (w, h)) assets,
                  effects := effects s @
                    [SaveSheet sheet_path (cols * w, (int (length assets) + cols - 1) div cols * h)
                       (245, 245, 245, 255)
                       (concat (map (\<lambda>(idx, a). tile_ops lib (w, h) cols idx a
                                       (thumbnail lib (heap s ! asset_image a) (w, h)))
                                 (enumerate 0 assets)))]\<rparr>"
  have c: "save_contact_sheet lib assets sheet_path tile_size cols s = Inr s1"
    unfolding tile s1_def by (rule save_contact_sheet_eq [OF valid assms(2)])
  have h1: "heap s1 = heap s @ map (\<lambda>a. thumbnail lib (heap s ! asset_image a) (w, h)) assets"
    by (simp add: s1_def)
  have valid1: "\<forall>a\<in>set assets. asset_image a < length (heap s1)"
    using valid by (auto simp add: h1)
  define s2 where "s2 = save_normalized_images lib assets out_dir me mb s1"
  have h2: "heap s2 = heap s1 @ map (\<lambda>a. normalized lib me mb (role a) (heap s1 ! asset_image a)) assets"
    unfolding s2_def save_normalized_images_eq [OF valid1] by simp
  have l1: "length (heap s1) = length (heap s) + length assets" by (simp add: h1)
  have l2: "length (heap s2) = length (heap s1) + length assets" by (simp add: h2)
  have pre: "take (length (heap s)) (heap s2) = heap s" by (simp add: h2 h1)
  have same: "heap s2 ! asset_image a = heap s ! asset_image a" if "a \<in> set assets" for a
    using that valid by (simp add: h2 h1 nth_append)
  note S = make_assets_spec [OF assms(1)]
  have each: "heap s2 ! asset_image (assets ! i) = heap s ! asset_image (assets ! i)
         \<and> load_rgba_with_exif lib (paths ! i) = Inr (heap s2 ! asset_image (assets ! i))"
    if i: "i < length assets" for i
  proof -
    have m: "assets ! i \<in> set assets" using i by simp
    have "i < length paths" using S i by simp
    then have "load_rgba_with_exif lib (paths ! i) = Inr (heap s ! asset_image (assets ! i))"
      using S by blast
    then show ?thesis using same [OF m] by simp
  qed
  have sm: "summary assets =
         JList (map (\<lambda>a. JDict
           [(''id'', JInt (asset_id a)), (''role'', JStr (role a)), (''path'', JStr (path a)),
            (''width'', JInt (img_width lib (heap s2 ! asset_image a))),
            (''height'', JInt (img_height lib (heap s2 ! asset_image a)))])
           assets)"
    unfolding summary_def using V same by (simp cong: map_cong)
  show ?thesis
    using c l1 l2 pre each sm unfolding s2_def by blast
qed

theorem saves_work_on_copies_witness:
  "make_assets sample_lib sample_paths
      (init_state\<lparr>effects := effects init_state @ [MkDir [''out'']]\<rparr>) = Inr (sample_assets, sample_state)
   \<and> (3 :: int) \<noteq> 0
   \<and> width (sample_assets ! 0) = 3000
   \<and> img_width sample_lib
        (normalized sample_lib 1600 2400 ''element'' (sample_decoded ''a.JPG'' 3000 4000)) = 1200
   \<and> (\<exists>s1. save_contact_sheet sample_lib sample_assets [''out'', ''contact_sheet.png''] (480, 320) 3
              sample_state = Inr s1
     \<and> take (length (heap sample_state))
          (heap (save_normalized_images sample_lib sample_assets [''out''] 1600 2400 s1))
         = heap sample_state
     \<and> summary sample_assets =
         JList (map (\<lambda>a. JDict
           [(''id'', JInt (asset_id a)), (''role'', JStr (role a)), (''path'', JStr (path a)),
            (''width'', JInt (img_width sample_lib
               (heap (save_normalized_images sample_lib sample_assets [''out''] 1600 2400 s1)
                  ! asset_image a))),
            (''height'', JInt (img_height sample_lib
               (heap (save_normalized_images sample_lib sample_assets [''out''] 1600 2400 s1)
                  ! asset_image a)))])
           sample_assets))"
proof -
  have t: "(3 :: int) \<noteq> 0" by simp
  have w: "width (sample_assets ! 0) = 3000" by (simp add: sample_assets_def sample_asset_def)
  from saves_work_on_copies [OF sample_make_assets t,
      of "[''out'', ''contact_sheet.png'']" "(480, 320)" "[''out'']" 1600 2400]
  obtain s1 where
    "save_contact_sheet sample_lib sample_assets [''out'', ''contact_sheet.png''] (480, 320) 3
              sample_state = Inr s1"
    "take (length (heap sample_state))
          (heap (save_normalized_images sample_lib sample_assets [''out''] 1600 2400 s1))
         = heap sample_state"
    "summary sample_assets =
         JList (map (\<lambda>a. JDict
           [(''id'', JInt (asset_id a)), (''role'', JStr (role a)), (''path'', JStr (path a)),
            (''width'', JInt (img_width sample_lib
               (heap (save_normalized_images sample_lib sample_assets [''out''] 1600 2400 s1)
                  ! asset_image a))),
            (''height'', JInt (img_height sample_lib
               (heap (save_normalized_images sample_lib sample_assets [''out''] 1600 2400 s1)
                  ! asset_image a)))])
           sample_assets)"
    by blast
  then show ?thesis using sample_make_assets t w sample_copy_smaller by blast
qed

section \<open>The names of the normalized copies\<close>

lemma of_char_digit: "d < 10 \<Longrightarrow> (of_char (digit_char d) :: nat) = 48 + d"
  by (simp add: digit_char_def)

lemma str_nat_digits: "c \<in> set (str_nat n) \<Longrightarrow> 48 \<le> (of_char c :: nat) \<and> (of_char c :: nat) \<le> 57"
proof (induction n arbitrary: c rule: str_nat.induct)
  case (1 n)
  show ?case
  proof (cases "n < 10")
    case True
    then have "c = digit_char n" using "1.prems" by (simp add: str_nat.simps [of n])
    then show ?thesis using of_char_digit [OF True] True by simp
  next
    case False
    then have "c \<in> set (str_nat (n div 10)) \<or> c = digit_char (n mod 10)"
      using "1.prems" by (auto simp add: str_nat.simps [of n])
    then show ?thesis
    proof
      assume "c \<in> set (str_nat (n div 10))"
      then show ?thesis using "1.IH" False by blast
    next
      assume c: "c = digit_char (n mod 10)"
      have m: "n mod 10 < 10" by simp
      from of_char_digit [OF m] m show ?thesis unfolding c by simp
    qed
  qed
qed

lemma digits_value_append:
  "digits_value (s @ [c]) = 10 * digits_value s + (of_char c - 48)"
  by (simp add: digits_value_def)

lemma digits_value_str_nat: "digits_value (str_nat n) = n"
proof (induction n rule: str_nat.induct)
  case (1 n)
  show ?case
  proof (cases "n < 10")
    case True
    then have "str_nat n = [digit_char n]" by (simp add: str_nat.simps [of n])
    then show ?thesis using of_char_digit [OF True] by (simp add: digits_value_def)
  next
    case False
    have m: "n mod 10 < 10" by simp
    have "str_nat n = str_nat (n div 10) @ [digit_char (n mod 10)]"
      using False by (simp add: str_nat.simps [of n])
    then have "digits_value (str_nat n) = 10 * (n div 10) + n mod 10"
      using "1.IH" False of_char_digit [OF m] by (simp add: digits_value_append)
    then show ?thesis by simp
  qed
qed

lemma digits_value_zero: "digits_value (CHR ''0'' # s) = digits_value s"
  by (simp add: digits_value_def)

lemma fmt_02d_value: "0 \<le> i \<Longrightarrow> digits_value (fmt_02d i) = nat i"
  by (simp add: fmt_02d_def str_int_def digits_value_zero digits_value_str_nat)

lemma fmt_02d_digits:
  assumes "0 \<le> i" and "c \<in> set (fmt_02d i)"
  shows "48 \<le> (of_char c :: nat) \<and> (of_char c :: nat) \<le> 57"
proof -
  have "c = CHR ''0'' \<or> c \<in> set (str_nat (nat i))"
    using assms by (auto simp add: fmt_02d_def str_int_def split: if_splits)
  then show ?thesis
  proof
    assume "c = CHR ''0''"
    then show ?thesis by simp
  next
    assume "c \<in> set (str_nat (nat i))"
    then show ?thesis by (rule str_nat_digits)
  qed
qed

lemma fmt_02d_no_char:
  assumes "0 \<le> i" and "(of_char c :: nat) < 48 \<or> 57 < (of_char c :: nat)"
  shows "c \<notin> set (fmt_02d i)"
  using fmt_02d_digits [OF assms(1), of c] assms(2) by auto

lemma takeWhile_until:
  assumes "c \<notin> set xs"
  shows "takeWhile (\<lambda>x. x \<noteq> c) (xs @ c # ys) = xs"
  using assms by (induction xs) auto

lemma file_name_id:
  assumes "0 \<le> i"
  shows "digits_value (takeWhile (\<lambda>x. x \<noteq> CHR ''_'') (fmt_02d i @ ''_'' @ r @ ''.png'')) = nat i"
proof -
  have "CHR ''_'' \<notin> set (fmt_02d i)" by (rule fmt_02d_no_char [OF assms]) simp
  then have "takeWhile (\<lambda>x. x \<noteq> CHR ''_'') (fmt_02d i @ CHR ''_'' # r @ ''.png'') = fmt_02d i"
    by (rule takeWhile_until)
  then show ?thesis using fmt_02d_value [OF assms] by simp
qed

lemma split_on_none: "c \<notin> set s \<Longrightarrow> split_on c s = [s]"
  by (induction s) auto

lemma path_div_plain:
  assumes "CHR ''/'' \<notin> set s" and "s \<noteq> []" and "s \<noteq> ''.''"
  shows "path_div p s = p @ [s]"
proof -
  have "take 1 s \<noteq> ''/''" using assms(1,2) by (cases s) auto
  then show ?thesis using assms by (simp add: path_div_def split_on_none)
qed

lemma asset_file_name_plain:
  assumes "0 \<le> i" and "r = ''element'' \<or> r = ''background''"
  shows "path_div out (fmt_02d i @ ''_'' @ r @ ''.png'') = out @ [fmt_02d i @ ''_'' @ r @ ''.png'']"
proof (rule path_div_plain)
  have f: "CHR ''/'' \<notin> set (fmt_02d i)" by (rule fmt_02d_no_char [OF assms(1)]) simp
  have r: "CHR ''/'' \<notin> set r" using assms(2) by auto
  show "CHR ''/'' \<notin> set (fmt_02d i @ ''_'' @ r @ ''.png'')" using f r by simp
  show "fmt_02d i @ ''_'' @ r @ ''.png'' \<noteq> []" by simp
  have "2 \<le> length (fmt_02d i @ ''_'' @ r @ ''.png'')" by simp
  then show "fmt_02d i @ ''_'' @ r @ ''.png'' \<noteq> ''.''" by auto
qed

lemma file_name_inj:
  assumes "0 \<le> i" and "0 \<le> j"
      and "fmt_02d i @ ''_'' @ r @ ''.png'' = fmt_02d j @ ''_'' @ r' @ ''.png''"
  shows "i = j"
proof -
  have "nat i = digits_value (takeWhile (\<lambda>x. x \<noteq> CHR ''_'') (fmt_02d i @ ''_'' @ r @ ''.png''))"
    by (simp only: file_name_id [OF assms(1)])
  also have "\<dots> = digits_value (takeWhile (\<lambda>x. x \<noteq> CHR ''_'') (fmt_02d j @ ''_'' @ r' @ ''.png''))"
    by (simp only: assms(3))
  also have "\<dots> = nat j" by (rule file_name_id [OF assms(2)])
  finally show ?thesis using assms(1,2) by simp
qed

lemma fmt_02d_small:
  "fmt_02d 1 = ''01''" "fmt_02d 2 = ''02''" "fmt_02d 3 = ''03''"
  "fmt_02d 4 = ''04''" "fmt_02d 5 = ''05''" "fmt_02d 6 = ''06''"
  by code_simp+

lemma upt_six: "[0..<6] = [0, 1, 2, 3, 4, 5]"
  by code_simp

text \<open>
  Claim C10. Over the assets that \<open>make_assets\<close> returned, \<open>save_normalized_images\<close>
  saves each copy in the output directory under the name made of the id in at least two
  digits, an underscore, the role and \<open>.png\<close>. These names are pairwise distinct, and so
  are the paths, so no copy is written over another; for six input paths the names are
  \<open>01_element.png\<close> to \<open>05_element.png\<close> and \<open>06_background.png\<close>.
\<close>

theorem normalized_file_names:
  assumes "make_assets lib paths s0 = Inr (assets, s)"
  shows "\<exists>copies. length copies = length assets
     \<and> effects (save_normalized_images lib assets out_dir me mb s)
         = effects s @ MkDir out_dir #
             map (\<lambda>(a, c). SaveImage (out_dir @ [fmt_02d (asset_id a) @ ''_'' @ role a @ ''.png'']) c)
               (zip assets copies)
     \<and> distinct (map (\<lambda>a. fmt_02d (asset_id a) @ ''_'' @ role a @ ''.png'') assets)
     \<and> distinct (map (\<lambda>a. out_dir @ [fmt_02d (asset_id a) @ ''_'' @ role a @ ''.png'']) assets)
     \<and> (length paths = 6 \<longrightarrow>
           map (\<lambda>a. fmt_02d (asset_id a) @ ''_'' @ role a @ ''.png'') assets
             = [''01_element.png'', ''02_element.png'', ''03_element.png'',
                ''04_element.png'', ''05_element.png'', ''06_background.png''])"
proof -
  let ?nm = "\<lambda>a. fmt_02d (asset_id a) @ ''_'' @ role a @ ''.png''"
  let ?N = "\<lambda>a. normalized lib me mb (role a) (heap s ! asset_image a)"
  note S = make_assets_spec [OF assms]
  have len: "length assets = length paths" using S by blast
  have id_at: "asset_id (assets ! j) = int j + 1" if "j < length assets" for j
    using S that len by simp
  have role_at: "role (assets ! j) = (if j < 5 then ''element'' else ''background'')"
    if "j < length assets" for j
    using S that len by simp
  have role_two: "role (assets ! j) = ''element'' \<or> role (assets ! j) = ''background''"
    if "j < length assets" for j
    unfolding role_at [OF that] by (cases "j < 5") simp_all
  have valid: "\<forall>a\<in>set assets. asset_image a < length (heap s)"
    using make_assets_valid [OF assms] by blast
  have plain_at: "path_div out_dir (?nm (assets ! j)) = out_dir @ [?nm (assets ! j)]"
    if j: "j < length assets" for j
  proof -
    have "0 \<le> asset_id (assets ! j)" by (simp add: id_at [OF j])
    then show ?thesis using role_two [OF j] by (rule asset_file_name_plain)
  qed
  have plain: "\<forall>a\<in>set assets. path_div out_dir (?nm a) = out_dir @ [?nm a]"
    unfolding all_set_conv_all_nth using plain_at by blast
  have e: "effects (save_normalized_images lib assets out_dir me mb s)
         = effects s @ MkDir out_dir #
             map (\<lambda>(a, c). SaveImage (out_dir @ [?nm a]) c) (zip assets (map ?N assets))"
    unfolding save_normalized_images_eq [OF valid] map_zip_map
    using plain by (simp cong: map_cong)
  have d: "distinct (map ?nm assets)"
    unfolding distinct_conv_nth
  proof (intro allI impI)
    fix i j assume i: "i < length (map ?nm assets)" and j: "j < length (map ?nm assets)"
      and ne: "i \<noteq> j"
    have i': "i < length assets" and j': "j < length assets" using i j by simp_all
    show "map ?nm assets ! i \<noteq> map ?nm assets ! j"
    proof
      assume "map ?nm assets ! i = map ?nm assets ! j"
      then have eq: "?nm (assets ! i) = ?nm (assets ! j)" using i' j' by simp
      have "asset_id (assets ! i) = asset_id (assets ! j)"
        by (rule file_name_inj [OF _ _ eq]) (simp_all add: id_at [OF i'] id_at [OF j'])
      then show False using id_at [OF i'] id_at [OF j'] ne by simp
    qed
  qed
  have d2: "distinct (map (\<lambda>a. out_dir @ [?nm a]) assets)"
  proof -
    have meq: "map (\<lambda>a. out_dir @ [?nm a]) assets = map (\<lambda>n. out_dir @ [n]) (map ?nm assets)"
      by (simp add: comp_def)
    show ?thesis unfolding meq
    proof (rule iffD2 [OF distinct_map], rule conjI)
      show "distinct (map ?nm assets)" by (rule d)
      show "inj_on (\<lambda>n. out_dir @ [n]) (set (map ?nm assets))" by (simp add: inj_on_def)
    qed
  qed
  have six: "map ?nm assets
              = [''01_element.png'', ''02_element.png'', ''03_element.png'',
                 ''04_element.png'', ''05_element.png'', ''06_background.png'']"
    if l: "length paths = 6"
  proof -
    have l6: "length assets = 6" using len l by simp
    have "map ?nm assets = map (\<lambda>j. ?nm (assets ! j)) [0..<length assets]"
      by (rule nth_equalityI) simp_all
    also have "\<dots> = map (\<lambda>j. ?nm (assets ! j)) [0, 1, 2, 3, 4, 5]"
      unfolding l6 upt_six ..
    also have "\<dots> = [''01_element.png'', ''02_element.png'', ''03_element.png'',
                 ''04_element.png'', ''05_element.png'', ''06_background.png'']"
      using l6 by (simp add: id_at role_at fmt_02d_small)
    finally show ?thesis .
  qed
  show ?thesis
    by (rule exI [of _ "map ?N assets"]) (use e d d2 six in simp)
qed

theorem normalized_file_names_witness:
  "make_assets sample_lib sample_paths
      (init_state\<lparr>effects := effects init_state @ [MkDir [''out'']]\<rparr>) = Inr (sample_assets, sample_state)
   \<and> length sample_paths = 6
   \<and> (\<exists>copies. length copies = length sample_assets
     \<and> effects (save_normalized_images sample_lib sample_assets [''out''] 1600 2400 sample_state)
         = effects sample_state @ MkDir [''out''] #
             map (\<lambda>(a, c). SaveImage ([''out''] @ [fmt_02d (asset_id a) @ ''_'' @ role a @ ''.png'']) c)
               (zip sample_assets copies))
   \<and> distinct (map (\<lambda>a. [''out''] @ [fmt_02d (asset_id a) @ ''_'' @ role a @ ''.png''])
         sample_assets)
   \<and> map (\<lambda>a. fmt_02d (asset_id a) @ ''_'' @ role a @ ''.png'') sample_assets
        = [''01_element.png'', ''02_element.png'', ''03_element.png'',
           ''04_element.png'', ''05_element.png'', ''06_background.png'']"
proof -
  have l: "length sample_paths = 6" by (simp add: sample_paths_def)
  show ?thesis
    using normalized_file_names [OF sample_make_assets, of "[''out'']" 1600 2400]
      sample_make_assets l
    by blast
qed

end
